theory Spec2Isabelle
  imports Main "HOL-Library.Sublist"
begin

section \<open>Strings and the package name of a function\<close>

text \<open>
  A Go string is a sequence of bytes, and so is a \<^typ>\<open>string\<close> here; the conversion
  \<^verbatim>\<open>string(body)\<close> of a byte slice is the identity. The source calls
  \<^verbatim>\<open>strings.LastIndex(f, ".")\<close> and \<^verbatim>\<open>strings.LastIndex(f, "/")\<close>, both with a separator of one
  byte: the index of the last occurrence of that byte, or \<open>-1\<close> when there is none.
\<close>

fun LastIndex :: "string \<Rightarrow> char \<Rightarrow> int" where
  "LastIndex [] c = - 1"
| "LastIndex (x # xs) c =
     (let i = LastIndex xs c
      in if 0 \<le> i then i + 1 else if x = c then 0 else - 1)"

text \<open>
  \<^verbatim>\<open>getPackageName\<close> (logger.go, lines 374-386): the loop cuts the string at its last period as long
  as that period lies after the last slash. The slice \<^verbatim>\<open>f[:lastPeriod]\<close> is taken only when
  \<open>lastPeriod > lastSlash \<ge> -1\<close>, so the index is never negative. The recursion ends because
  the index of the last period is below the length of the string.
\<close>

function getPackageName :: "string \<Rightarrow> string" where
  "getPackageName f =
     (let lastPeriod = LastIndex f (CHR ''.'');
          lastSlash = LastIndex f (CHR ''/'')
      in if lastPeriod > lastSlash then getPackageName (take (nat lastPeriod) f) else f)"
  by pat_completeness auto
termination
proof (relation "measure length")
  show "wf (measure length)" by simp
next
  fix f :: string and lastPeriod lastSlash :: int
  assume lp: "lastPeriod = LastIndex f (CHR ''.'')" and ls: "lastSlash = LastIndex f (CHR ''/'')"
    and lt: "lastSlash < lastPeriod"
  have upper: "LastIndex g c < int (length g)" for g c
    by (induction g) (auto simp: Let_def)
  have lower: "- 1 \<le> LastIndex g c" for g c
    by (induction g) (auto simp: Let_def)
  from lp ls lt have "nat lastPeriod < length f"
    using upper [of f "CHR ''.''"] lower [of f "CHR ''/''"] by simp
  then show "(take (nat lastPeriod) f, f) \<in> measure length" by simp
qed

declare getPackageName.simps [simp del]

text \<open>
  The closed form that the loop is compared with: everything up to and including the last
  slash, followed by what comes before the first period after it.
\<close>

definition package_of :: "string \<Rightarrow> string" where
  "package_of f =
     (let k = nat (LastIndex f (CHR ''/'') + 1)
      in take k f @ takeWhile (\<lambda>c. c \<noteq> CHR ''.'') (drop k f))"

text \<open>
  \<^verbatim>\<open>fmt.Sprintf("%s:%d", caller.File, caller.Line)\<close> needs the decimal form of an integer.
\<close>

fun decimal :: "nat \<Rightarrow> string" where
  "decimal n =
     (if n < 10 then [''0123456789'' ! n]
      else decimal (n div 10) @ [''0123456789'' ! (n mod 10)])"

declare decimal.simps [simp del]

definition Itoa :: "int \<Rightarrow> string" where
  "Itoa i = (if i < 0 then CHR ''-'' # decimal (nat (- i)) else decimal (nat i))"

section \<open>Data model\<close>

text \<open>
  The severity levels are those of logrus, which declares them as consecutive \<^verbatim>\<open>uint32\<close>
  constants starting with \<^verbatim>\<open>PanicLevel = iota\<close>: a more severe level has a smaller number.
\<close>

datatype Level = PanicLevel | FatalLevel | ErrorLevel | WarnLevel | InfoLevel | DebugLevel
  | TraceLevel

fun level_number :: "Level \<Rightarrow> nat" where
  "level_number PanicLevel = 0"
| "level_number FatalLevel = 1"
| "level_number ErrorLevel = 2"
| "level_number WarnLevel = 3"
| "level_number InfoLevel = 4"
| "level_number DebugLevel = 5"
| "level_number TraceLevel = 6"

text \<open>
  A value of type \<^verbatim>\<open>interface{}\<close> stored in \<^verbatim>\<open>log.Fields\<close>: the code stores strings and the
  integer status; \<open>AnyVal\<close> stands for a caller-supplied value of any other dynamic type.
\<close>

datatype val = StringVal string | IntVal int | AnyVal string

type_synonym Fields = "string \<rightharpoonup> val"

datatype Message = Formatted string "val list" | Plain "val list"

record Entry =
  Data :: Fields

record Log =
  entry :: Entry

record Record =
  rec_level :: Level
  rec_fields :: Fields
  rec_message :: Message

record Frame =
  Function :: string
  File :: string
  Line :: int

text \<open>
  A panic of the Go runtime is a value: \<open>NilPointer\<close> for a call through a nil interface or
  a nil pointer. \<open>DanglingReference\<close> keeps the model total where an address does not
  denote an object of the store; Go's memory safety excludes it in an execution.
\<close>

datatype panic = NilPointer | DanglingReference

type_synonym addr = nat

text \<open>
  A context is a chain of bindings towards \<^verbatim>\<open>context.Background()\<close>. The key
  \<^verbatim>\<open>ContextDataMapKey\<close> has a type of its own, so no other key equals it. A bound value is
  a reference to a \<^verbatim>\<open>map[string]string\<close> (\<open>None\<close> is the nil map) or a value of another type.
\<close>

datatype ctxkey = ContextDataMapKey | OtherKey string

datatype ctxval = StringMap "addr option" | OtherValue string

datatype Context = Background | WithValue Context ctxkey ctxval

fun ctx_Value :: "Context \<Rightarrow> ctxkey \<Rightarrow> ctxval option" where
  "ctx_Value Background key = None"
| "ctx_Value (WithValue parent k v) key = (if k = key then Some v else ctx_Value parent key)"

definition ContextIdKey :: string where "ContextIdKey = ''context_id''"
definition PathKey :: string where "PathKey = ''url_path''"
definition RequestKey :: string where "RequestKey = ''request''"
definition ResponseKey :: string where "ResponseKey = ''response''"
definition ResponseCodeKey :: string where "ResponseCodeKey = ''response_code''"

text \<open>
  A body stream (\<^verbatim>\<open>io.ReadCloser\<close>): \<open>Stream b failing\<close> still delivers the bytes \<open>b\<close> and then
  ends, with a read error when \<open>failing\<close> and with EOF otherwise; \<open>ClosedStream\<close> is such a
  stream after \<^verbatim>\<open>Close\<close>; \<open>NopCloserBuffer b\<close> is \<^verbatim>\<open>ioutil.NopCloser(bytes.NewBuffer(b))\<close> with
  \<open>b\<close> unread.
\<close>

datatype Reader = Stream string bool | ClosedStream | NopCloserBuffer string

text \<open>
  The part of \<^verbatim>\<open>http.Request\<close> that the code reads: \<^verbatim>\<open>Host\<close>, \<^verbatim>\<open>URL.Path\<close> (\<open>None\<close> when \<^verbatim>\<open>URL\<close> is
  nil), \<^verbatim>\<open>Body\<close> (a reference to a stream, \<open>None\<close> when nil) and the unexported context.
\<close>

record Request =
  req_Host :: string
  req_URL_Path :: "string option"
  req_Body :: "addr option"
  req_ctx :: "Context option"

record contextData =
  contextId :: string

text \<open>
  The store: the objects that the code shares by reference (maps, requests, body streams),
  each heap a list indexed by address, and the package-level variables of the caller
  resolver. Allocation appends to a heap, so a new object never takes an address in use.
\<close>

record state =
  maps :: "(string \<rightharpoonup> string) list"
  requests :: "Request list"
  readers :: "Reader list"
  callerInitOnce :: bool
  thisPackageName :: string
  minimumCallerDepth :: nat

definition initial_state :: state where
  "initial_state =
     \<lparr>maps = [], requests = [], readers = [], callerInitOnce = False,
      thisPackageName = [], minimumCallerDepth = 1\<rparr>"

definition maximumCallerDepth :: nat where "maximumCallerDepth = 25"
definition knownLogFrames :: nat where "knownLogFrames = 3"

text \<open>
  The call stack is an input of the model: \<open>once_stack\<close> lists the frames that
  \<^verbatim>\<open>runtime.Callers\<close> sees when it is called in the function passed to \<^verbatim>\<open>callerInitOnce.Do\<close>,
  \<open>walk_stack\<close> those it sees when \<^verbatim>\<open>getCaller\<close> calls it; index 0 is the frame of
  \<^verbatim>\<open>runtime.Callers\<close> itself. One program counter stands for one frame.
\<close>

record callstack =
  once_stack :: "Frame list"
  walk_stack :: "Frame list"

section \<open>Execution context carrier\<close>

text \<open>
  \<^verbatim>\<open>make(map[string]string, 0)\<close> allocates an empty map at a new address; \<^verbatim>\<open>data[key] = value\<close>
  writes into the map object at that address, whoever else holds the reference;
  \<^verbatim>\<open>data[key]\<close> reads the empty string for a missing key and for the nil map.
\<close>

definition make_map :: "state \<Rightarrow> addr \<times> state" where
  "make_map s = (length (maps s), s\<lparr>maps := maps s @ [Map.empty]\<rparr>)"

definition map_assign :: "addr \<Rightarrow> string \<Rightarrow> string \<Rightarrow> state \<Rightarrow> state" where
  "map_assign a key v s = s\<lparr>maps := (maps s)[a := (maps s ! a)(key \<mapsto> v)]\<rparr>"

definition map_index :: "(string \<rightharpoonup> string) \<Rightarrow> string \<Rightarrow> string" where
  "map_index m key = (case m key of None \<Rightarrow> [] | Some v \<Rightarrow> v)"

text \<open>
  \<^verbatim>\<open>r.Context()\<close> is the request's context, or the background context when the field is
  nil. \<^verbatim>\<open>r.WithContext(ctx)\<close> allocates a shallow copy of the request with the context
  replaced; the code never passes it a nil context.
\<close>

definition Request_Context :: "Request \<Rightarrow> Context" where
  "Request_Context req = (case req_ctx req of None \<Rightarrow> Background | Some c \<Rightarrow> c)"

definition Request_WithContext :: "Request \<Rightarrow> Context \<Rightarrow> state \<Rightarrow> addr \<times> state" where
  "Request_WithContext req c s =
     (length (requests s), s\<lparr>requests := requests s @ [req\<lparr>req_ctx := Some c\<rparr>]\<rparr>)"

text \<open>\<^verbatim>\<open>getContextData\<close> (lines 116-129); the result is \<open>None\<close> for the nil pointer.\<close>

definition getContextData :: "Context option \<Rightarrow> state \<Rightarrow> panic + contextData option" where
  "getContextData ctx s =
     (case ctx of
        None \<Rightarrow> Inl NilPointer
      | Some c \<Rightarrow>
          (case ctx_Value c ContextDataMapKey of
             None \<Rightarrow> Inr None
           | Some (OtherValue x) \<Rightarrow> Inr None
           | Some (StringMap None) \<Rightarrow> Inr (Some \<lparr>contextId = map_index Map.empty ContextIdKey\<rparr>)
           | Some (StringMap (Some a)) \<Rightarrow>
               if a < length (maps s)
               then Inr (Some \<lparr>contextId = map_index (maps s ! a) ContextIdKey\<rparr>)
               else Inl DanglingReference))"

text \<open>\<^verbatim>\<open>BuildContextDataAndSetValue\<close> (lines 131-138).\<close>

definition BuildContextDataAndSetValue :: "string \<Rightarrow> state \<Rightarrow> Context \<times> state" where
  "BuildContextDataAndSetValue cid s =
     (let (data, s1) = make_map s;
          s2 = map_assign data ContextIdKey cid s1
      in (WithValue Background ContextDataMapKey (StringMap (Some data)), s2))"

text \<open>
  \<^verbatim>\<open>AppendContextDataAndSetValue\<close> (lines 140-147). The request \<open>r\<close> is a pointer; one that
  denotes no request of the store stands for nil, and \<^verbatim>\<open>r.Context()\<close> panics on it.
\<close>

definition AppendContextDataAndSetValue :: "addr \<Rightarrow> string \<Rightarrow> state \<Rightarrow> panic + addr \<times> state"
  where
  "AppendContextDataAndSetValue r cid s =
     (let (data, s1) = make_map s;
          s2 = map_assign data ContextIdKey cid s1
      in if r < length (requests s2)
         then let req = requests s2 ! r;
                  c = WithValue (Request_Context req) ContextDataMapKey (StringMap (Some data))
              in Inr (Request_WithContext req c s2)
         else Inl NilPointer)"

text \<open>
  \<^verbatim>\<open>SetContextDataAndSetValue\<close> (lines 149-158): a map is made only when \<open>data\<close> is nil;
  otherwise the assignment goes into the caller's map, and that map is bound in the context.
\<close>

definition SetContextDataAndSetValue ::
  "addr \<Rightarrow> addr option \<Rightarrow> string \<Rightarrow> state \<Rightarrow> panic + addr \<times> state" where
  "SetContextDataAndSetValue r data cid s =
     (let (data1, s1) = (case data of None \<Rightarrow> make_map s | Some a \<Rightarrow> (a, s))
      in if data1 < length (maps s1)
         then let s2 = map_assign data1 ContextIdKey cid s1
              in if r < length (requests s2)
                 then let req = requests s2 ! r;
                          c = WithValue (Request_Context req) ContextDataMapKey
                                (StringMap (Some data1))
                      in Inr (Request_WithContext req c s2)
                 else Inl NilPointer
         else Inl DanglingReference)"

text \<open>
  For the statements below: the data map that a context carries, as the code reads it
  (\<^verbatim>\<open>ctx.Value(ContextDataMapKey)\<close> asserted to \<^verbatim>\<open>map[string]string\<close>); \<open>None\<close> when there is no
  such binding, when the bound value has another type, or when the reference denotes no map.
  The nil map reads as the empty map.
\<close>

definition context_data :: "state \<Rightarrow> Context \<Rightarrow> (string \<rightharpoonup> string) option" where
  "context_data s c =
     (case ctx_Value c ContextDataMapKey of
        None \<Rightarrow> None
      | Some (OtherValue x) \<Rightarrow> None
      | Some (StringMap None) \<Rightarrow> Some Map.empty
      | Some (StringMap (Some a)) \<Rightarrow> if a < length (maps s) then Some (maps s ! a) else None)"

text \<open>The same data as fields of a record; no fields when the context carries no map.\<close>

definition context_fields :: "state \<Rightarrow> Context \<Rightarrow> string \<rightharpoonup> val" where
  "context_fields s c =
     (case context_data s c of
        None \<Rightarrow> Map.empty
      | Some m \<Rightarrow> (\<lambda>key. case m key of None \<Rightarrow> None | Some v \<Rightarrow> Some (StringVal v)))"

text \<open>The references of a context denote maps of the store.\<close>

fun context_ok :: "state \<Rightarrow> Context \<Rightarrow> bool" where
  "context_ok s Background = True"
| "context_ok s (WithValue parent k (StringMap (Some a))) =
     (a < length (maps s) \<and> context_ok s parent)"
| "context_ok s (WithValue parent k v) = context_ok s parent"

text \<open>
  The extra data passed to \<^verbatim>\<open>SetContextDataAndSetValue\<close> are the very map object that the
  request's context already binds.
\<close>

definition shares_map :: "Request \<Rightarrow> addr option \<Rightarrow> bool" where
  "shares_map req data =
     (case data of
        None \<Rightarrow> False
      | Some a \<Rightarrow> ctx_Value (Request_Context req) ContextDataMapKey = Some (StringMap (Some a)))"

section \<open>Caller resolver\<close>

text \<open>
  \<^verbatim>\<open>runtime.Callers(skip, pcs)\<close> skips \<open>skip\<close> frames and fills at most \<^verbatim>\<open>len(pcs)\<close> entries.
  \<^verbatim>\<open>frames.Next()\<close> returns the next frame and whether another one follows: \<^verbatim>\<open>more\<close> is false
  together with the last frame, and the zero frame comes with false when there is none.
\<close>

definition Callers :: "nat \<Rightarrow> nat \<Rightarrow> Frame list \<Rightarrow> Frame list" where
  "Callers skip n stack = take n (drop skip stack)"

definition zero_Frame :: Frame where
  "zero_Frame = \<lparr>Function = [], File = [], Line = 0\<rparr>"

fun Next :: "Frame list \<Rightarrow> (Frame \<times> bool) \<times> Frame list" where
  "Next [] = ((zero_Frame, False), [])"
| "Next (f # fs) = ((f, fs \<noteq> []), fs)"

text \<open>
  The function passed to \<^verbatim>\<open>callerInitOnce.Do\<close> (lines 343-353) runs on the first call only.
\<close>

definition callerInit :: "callstack \<Rightarrow> state \<Rightarrow> state" where
  "callerInit cs s =
     (if callerInitOnce s then s
      else let frames = Callers 1 2 (once_stack cs);
               ((frame, more), rest) = Next frames
           in s\<lparr>callerInitOnce := True,
                thisPackageName := getPackageName (Function frame),
                minimumCallerDepth := knownLogFrames\<rparr>)"

text \<open>
  The loop of \<^verbatim>\<open>getCaller\<close> (lines 360-367), entered with the result of the first
  \<^verbatim>\<open>frames.Next()\<close>: the body runs only while \<^verbatim>\<open>again\<close> holds.
\<close>

function caller_loop :: "string \<Rightarrow> Frame \<Rightarrow> bool \<Rightarrow> Frame list \<Rightarrow> Frame option" where
  "caller_loop this f again frames =
     (if again
      then if getPackageName (Function f) \<noteq> this then Some f
           else caller_loop this (fst (fst (Next frames))) (snd (fst (Next frames)))
                  (snd (Next frames))
      else None)"
  by pat_completeness auto
termination
proof (relation "measure (\<lambda>(this, f, again, frames). length frames + (if again then 1 else 0))")
  show "wf (measure (\<lambda>(this, f, again, frames).
          length frames + (if again then 1 else (0::nat))))"
    by simp
next
  fix this :: string and f :: Frame and again :: bool and frames :: "Frame list"
  assume "again"
  then show "((this, fst (fst (Next frames)), snd (fst (Next frames)), snd (Next frames)),
              (this, f, again, frames))
             \<in> measure (\<lambda>(this, f, again, frames). length frames + (if again then 1 else 0))"
    by (cases frames) auto
qed

declare caller_loop.simps [simp del]

text \<open>\<^verbatim>\<open>getCaller\<close> (lines 340-371).\<close>

definition getCaller :: "callstack \<Rightarrow> state \<Rightarrow> Frame option \<times> state" where
  "getCaller cs s =
     (let s1 = callerInit cs s;
          frames = Callers (minimumCallerDepth s1) maximumCallerDepth (walk_stack cs);
          ((f, again), rest) = Next frames
      in (caller_loop (thisPackageName s1) f again rest, s1))"

section \<open>Field accumulator\<close>

text \<open>
  \<^verbatim>\<open>setCaller\<close> (lines 274-287) and \<^verbatim>\<open>setCallStackTrace\<close> (lines 268-272). The comparison
  \<^verbatim>\<open>logLevel <= log.ErrorLevel\<close> is one of level numbers.
\<close>

definition setCaller :: "Frame option \<Rightarrow> Fields \<Rightarrow> Fields" where
  "setCaller caller flds =
     (case caller of
        None \<Rightarrow> flds
      | Some c \<Rightarrow>
          (let funcVal = Function c;
               fileVal = File c @ '':'' @ Itoa (Line c);
               flds1 = (if funcVal \<noteq> [] then flds(''func'' \<mapsto> StringVal funcVal) else flds)
           in if fileVal \<noteq> [] then flds1(''file'' \<mapsto> StringVal fileVal) else flds1))"

definition setCallStackTrace :: "Level \<Rightarrow> callstack \<Rightarrow> Fields \<Rightarrow> state \<Rightarrow> Fields \<times> state" where
  "setCallStackTrace logLevel cs flds s =
     (if level_number logLevel \<le> level_number ErrorLevel
      then let (caller, s1) = getCaller cs s in (setCaller caller flds, s1)
      else (flds, s))"

text \<open>
  \<^verbatim>\<open>injectContextDataMap\<close> (lines 289-301). The loop assigns every entry of the map to the
  fields; the keys of a map are distinct, so the order of the iteration does not show and
  the result is the fields overridden by the map. The context is an interface value,
  \<open>None\<close> when nil; the call \<^verbatim>\<open>ctx.Value\<close> panics on it.
\<close>

definition string_fields :: "(string \<rightharpoonup> string) \<Rightarrow> Fields" where
  "string_fields m = (\<lambda>key. case m key of None \<Rightarrow> None | Some v \<Rightarrow> Some (StringVal v))"

definition injectContextDataMap :: "Context option \<Rightarrow> state \<Rightarrow> Fields \<Rightarrow> panic + Fields" where
  "injectContextDataMap ctx s flds =
     (case ctx of
        None \<Rightarrow> Inl NilPointer
      | Some c \<Rightarrow>
          (case ctx_Value c ContextDataMapKey of
             None \<Rightarrow> Inr flds
           | Some (OtherValue x) \<Rightarrow> Inr flds
           | Some (StringMap None) \<Rightarrow> Inr (flds ++ string_fields Map.empty)
           | Some (StringMap (Some a)) \<Rightarrow>
               if a < length (maps s) then Inr (flds ++ string_fields (maps s ! a))
               else Inl DanglingReference))"

text \<open>\<^verbatim>\<open>injectURLPath\<close> (lines 303-306); \<^verbatim>\<open>r.URL.Path\<close> panics when \<^verbatim>\<open>r\<close> or \<^verbatim>\<open>r.URL\<close> is nil.\<close>

definition injectURLPath :: "addr \<Rightarrow> state \<Rightarrow> Fields \<Rightarrow> panic + Fields" where
  "injectURLPath r s flds =
     (if r < length (requests s)
      then case req_URL_Path (requests s ! r) of
             None \<Rightarrow> Inl NilPointer
           | Some path \<Rightarrow> Inr (flds(PathKey \<mapsto> StringVal (req_Host (requests s ! r) @ path)))
      else Inl NilPointer)"

text \<open>
  \<^verbatim>\<open>ioutil.ReadAll\<close> reads until EOF or an error and returns what it read, with the error if
  any; the stream is left with nothing to deliver. \<^verbatim>\<open>Close\<close> ends a stream and does nothing
  on a \<^verbatim>\<open>NopCloser\<close>.
\<close>

fun ReadAll :: "Reader \<Rightarrow> (string \<times> bool) \<times> Reader" where
  "ReadAll (Stream b failing) = ((b, failing), Stream [] failing)"
| "ReadAll ClosedStream = (([], True), ClosedStream)"
| "ReadAll (NopCloserBuffer b) = ((b, False), NopCloserBuffer [])"

fun Close :: "Reader \<Rightarrow> Reader" where
  "Close (Stream b failing) = ClosedStream"
| "Close ClosedStream = ClosedStream"
| "Close (NopCloserBuffer b) = NopCloserBuffer b"

text \<open>
  \<^verbatim>\<open>fmt.Sprintf("%q", r.Body)\<close> is applied to the value that \<^verbatim>\<open>ioutil.NopCloser\<close> has just
  returned: a struct with one field, the buffer. \<^verbatim>\<open>fmt\<close> prints a struct in braces and, for
  the verb \<^verbatim>\<open>%q\<close>, a field that has a \<^verbatim>\<open>String\<close> method as that string quoted; the buffer's
  \<^verbatim>\<open>String\<close> method returns the unread bytes and reads nothing. The argument \<open>b\<close> is the
  content of that buffer; the quoting of \<^verbatim>\<open>strconv.Quote\<close> is the parameter \<open>quote\<close>.
\<close>

definition Sprintf_q :: "(string \<Rightarrow> string) \<Rightarrow> string \<Rightarrow> string" where
  "Sprintf_q quote b = ''{'' @ quote b @ ''}''"

text \<open>
  \<^verbatim>\<open>injectRequestBody\<close> (lines 308-315): the error of \<^verbatim>\<open>ReadAll\<close> is dropped; the old stream is
  read out and closed in the store, a new buffer is allocated, and the request object
  itself gets the new body.
\<close>

definition injectRequestBody ::
  "(string \<Rightarrow> string) \<Rightarrow> addr \<Rightarrow> state \<Rightarrow> Fields \<Rightarrow> panic + Fields \<times> state" where
  "injectRequestBody quote r s flds =
     (if r < length (requests s)
      then case req_Body (requests s ! r) of
             None \<Rightarrow> Inl NilPointer
           | Some b \<Rightarrow>
               if b < length (readers s)
               then let ((buf, err), rd) = ReadAll (readers s ! b);
                        old = (readers s)[b := Close rd];
                        body = length old;
                        s1 = s\<lparr>readers := old @ [NopCloserBuffer buf],
                               requests := (requests s)[r := (requests s ! r)\<lparr>req_Body := Some body\<rparr>]\<rparr>
                    in Inr (flds(RequestKey \<mapsto> StringVal (Sprintf_q quote buf)), s1)
               else Inl DanglingReference
      else Inl NilPointer)"

section \<open>Response capture wrapper\<close>

text \<open>
  The wrapped \<^verbatim>\<open>http.ResponseWriter\<close> is any object of a type \<open>'w\<close> with the two methods the
  wrapper forwards to; \<^verbatim>\<open>Write\<close> returns the number of bytes written and whether it failed.
\<close>

record 'w ResponseWriter_methods =
  rw_WriteHeader :: "int \<Rightarrow> 'w \<Rightarrow> 'w"
  rw_Write :: "string \<Rightarrow> 'w \<Rightarrow> (int \<times> bool) \<times> 'w"

record 'w LoggingResponseWriter =
  Status :: int
  Body :: string
  ResponseWriter :: 'w

text \<open>\<^verbatim>\<open>CreateResponseWrapper\<close> (lines 160-164): the other fields have their zero values.\<close>

definition CreateResponseWrapper :: "'w \<Rightarrow> 'w LoggingResponseWriter" where
  "CreateResponseWrapper rw = \<lparr>Status = 0, Body = [], ResponseWriter = rw\<rparr>"

text \<open>\<^verbatim>\<open>WriteHeader\<close> (lines 329-332) and \<^verbatim>\<open>Write\<close> (lines 334-337).\<close>

definition WriteHeader ::
  "'w ResponseWriter_methods \<Rightarrow> int \<Rightarrow> 'w LoggingResponseWriter \<Rightarrow> 'w LoggingResponseWriter"
  where
  "WriteHeader impl code w =
     (let w1 = w\<lparr>Status := code\<rparr>
      in w1\<lparr>ResponseWriter := rw_WriteHeader impl code (ResponseWriter w1)\<rparr>)"

definition Write ::
  "'w ResponseWriter_methods \<Rightarrow> string \<Rightarrow> 'w LoggingResponseWriter
     \<Rightarrow> (int \<times> bool) \<times> 'w LoggingResponseWriter" where
  "Write impl body w =
     (let w1 = w\<lparr>Body := body\<rparr>;
          (res, rw) = rw_Write impl body (ResponseWriter w1)
      in (res, w1\<lparr>ResponseWriter := rw\<rparr>))"

text \<open>\<^verbatim>\<open>injectResponseBody\<close> (lines 317-321); \<open>None\<close> is the nil wrapper.\<close>

definition injectResponseBody :: "'w LoggingResponseWriter option \<Rightarrow> Fields \<Rightarrow> panic + Fields" where
  "injectResponseBody rw flds =
     (case rw of
        None \<Rightarrow> Inl NilPointer
      | Some w \<Rightarrow> Inr (flds(ResponseCodeKey \<mapsto> IntVal (Status w), ResponseKey \<mapsto> StringVal (Body w))))"

text \<open>
  A sequence of writes, for the statements about the wrapper: applied to the wrapper and
  applied to the sink directly. Each returns the results of the \<^verbatim>\<open>Write\<close> calls too.
\<close>

datatype write_op = DoWriteHeader int | DoWrite string

fun wrapper_run ::
  "'w ResponseWriter_methods \<Rightarrow> write_op list \<Rightarrow> 'w LoggingResponseWriter
     \<Rightarrow> (int \<times> bool) list \<times> 'w LoggingResponseWriter" where
  "wrapper_run impl [] w = ([], w)"
| "wrapper_run impl (DoWriteHeader code # ops) w = wrapper_run impl ops (WriteHeader impl code w)"
| "wrapper_run impl (DoWrite body # ops) w =
     (let (res, w1) = Write impl body w;
          (results, w2) = wrapper_run impl ops w1
      in (res # results, w2))"

fun sink_run ::
  "'w ResponseWriter_methods \<Rightarrow> write_op list \<Rightarrow> 'w \<Rightarrow> (int \<times> bool) list \<times> 'w" where
  "sink_run impl [] rw = ([], rw)"
| "sink_run impl (DoWriteHeader code # ops) rw = sink_run impl ops (rw_WriteHeader impl code rw)"
| "sink_run impl (DoWrite body # ops) rw =
     (let (res, rw1) = rw_Write impl body rw;
          (results, rw2) = sink_run impl ops rw1
      in (res # results, rw2))"

text \<open>
  A sink that keeps what it receives, for concrete runs: the status of the first
  \<^verbatim>\<open>WriteHeader\<close> (200 when a body write comes first) and the bytes written.
\<close>

record recorder =
  sent_status :: "int option"
  sent_bytes :: string

definition recorder_methods :: "recorder ResponseWriter_methods" where
  "recorder_methods =
     \<lparr>rw_WriteHeader = (\<lambda>code rw.
         if sent_status rw = None then rw\<lparr>sent_status := Some code\<rparr> else rw),
      rw_Write = (\<lambda>body rw.
         ((int (length body), False),
          rw\<lparr>sent_status := (if sent_status rw = None then Some 200 else sent_status rw),
             sent_bytes := sent_bytes rw @ body\<rparr>))\<rparr>"

section \<open>Logging facade\<close>

text \<open>
  What a call hands to logrus is the model's output: \<^verbatim>\<open>entry.WithFields(fields)\<close> copies the
  entry's data and overrides it with the fields, and the level method that follows logs the
  message at its level. Whether logrus then writes the record depends on its threshold, and
  its \<^verbatim>\<open>Fatal\<close> methods end the process after logging; both lie beyond this output.
\<close>

definition WithFields :: "Entry \<Rightarrow> Fields \<Rightarrow> Entry" where
  "WithFields e flds = e\<lparr>Data := Data e ++ flds\<rparr>"

definition Entry_Log :: "Entry \<Rightarrow> Level \<Rightarrow> Message \<Rightarrow> Record" where
  "Entry_Log e lvl msg = \<lparr>rec_level = lvl, rec_fields = Data e, rec_message = msg\<rparr>"

text \<open>\<^verbatim>\<open>NewLogger\<close> (lines 89-98): the entry carries the service name.\<close>

definition NewLogger :: "string \<Rightarrow> Log" where
  "NewLogger service = \<lparr>entry = WithFields \<lparr>Data = Map.empty\<rparr> [''service'' \<mapsto> StringVal service]\<rparr>"

text \<open>The ten levelled calls (lines 170-238).\<close>

definition Infof ::
  "Log \<Rightarrow> callstack \<Rightarrow> Context option \<Rightarrow> string \<Rightarrow> val list \<Rightarrow> state \<Rightarrow> panic + Record \<times> state"
  where
  "Infof l cs ctx message args s =
     (let (flds, s1) = setCallStackTrace InfoLevel cs Map.empty s
      in case injectContextDataMap ctx s1 flds of
           Inl e \<Rightarrow> Inl e
         | Inr flds1 \<Rightarrow>
             Inr (Entry_Log (WithFields (entry l) flds1) InfoLevel (Formatted message args), s1))"

definition Warnf ::
  "Log \<Rightarrow> callstack \<Rightarrow> Context option \<Rightarrow> string \<Rightarrow> val list \<Rightarrow> state \<Rightarrow> panic + Record \<times> state"
  where
  "Warnf l cs ctx message args s =
     (let (flds, s1) = setCallStackTrace WarnLevel cs Map.empty s
      in case injectContextDataMap ctx s1 flds of
           Inl e \<Rightarrow> Inl e
         | Inr flds1 \<Rightarrow>
             Inr (Entry_Log (WithFields (entry l) flds1) WarnLevel (Formatted message args), s1))"

definition Errorf ::
  "Log \<Rightarrow> callstack \<Rightarrow> Context option \<Rightarrow> string \<Rightarrow> val list \<Rightarrow> state \<Rightarrow> panic + Record \<times> state"
  where
  "Errorf l cs ctx message args s =
     (let (flds, s1) = setCallStackTrace ErrorLevel cs Map.empty s
      in case injectContextDataMap ctx s1 flds of
           Inl e \<Rightarrow> Inl e
         | Inr flds1 \<Rightarrow>
             Inr (Entry_Log (WithFields (entry l) flds1) ErrorLevel (Formatted message args), s1))"

definition Debugf ::
  "Log \<Rightarrow> callstack \<Rightarrow> Context option \<Rightarrow> string \<Rightarrow> val list \<Rightarrow> state \<Rightarrow> panic + Record \<times> state"
  where
  "Debugf l cs ctx message args s =
     (let (flds, s1) = setCallStackTrace DebugLevel cs Map.empty s
      in case injectContextDataMap ctx s1 flds of
           Inl e \<Rightarrow> Inl e
         | Inr flds1 \<Rightarrow>
             Inr (Entry_Log (WithFields (entry l) flds1) DebugLevel (Formatted message args), s1))"

definition Fatalf ::
  "Log \<Rightarrow> callstack \<Rightarrow> Context option \<Rightarrow> string \<Rightarrow> val list \<Rightarrow> state \<Rightarrow> panic + Record \<times> state"
  where
  "Fatalf l cs ctx message args s =
     (let (flds, s1) = setCallStackTrace FatalLevel cs Map.empty s
      in case injectContextDataMap ctx s1 flds of
           Inl e \<Rightarrow> Inl e
         | Inr flds1 \<Rightarrow>
             Inr (Entry_Log (WithFields (entry l) flds1) FatalLevel (Formatted message args), s1))"

definition Info ::
  "Log \<Rightarrow> callstack \<Rightarrow> Context option \<Rightarrow> val list \<Rightarrow> state \<Rightarrow> panic + Record \<times> state" where
  "Info l cs ctx args s =
     (let (flds, s1) = setCallStackTrace InfoLevel cs Map.empty s
      in case injectContextDataMap ctx s1 flds of
           Inl e \<Rightarrow> Inl e
         | Inr flds1 \<Rightarrow> Inr (Entry_Log (WithFields (entry l) flds1) InfoLevel (Plain args), s1))"

definition Warn ::
  "Log \<Rightarrow> callstack \<Rightarrow> Context option \<Rightarrow> val list \<Rightarrow> state \<Rightarrow> panic + Record \<times> state" where
  "Warn l cs ctx args s =
     (let (flds, s1) = setCallStackTrace WarnLevel cs Map.empty s
      in case injectContextDataMap ctx s1 flds of
           Inl e \<Rightarrow> Inl e
         | Inr flds1 \<Rightarrow> Inr (Entry_Log (WithFields (entry l) flds1) WarnLevel (Plain args), s1))"

definition Error ::
  "Log \<Rightarrow> callstack \<Rightarrow> Context option \<Rightarrow> val list \<Rightarrow> state \<Rightarrow> panic + Record \<times> state" where
  "Error l cs ctx args s =
     (let (flds, s1) = setCallStackTrace ErrorLevel cs Map.empty s
      in case injectContextDataMap ctx s1 flds of
           Inl e \<Rightarrow> Inl e
         | Inr flds1 \<Rightarrow> Inr (Entry_Log (WithFields (entry l) flds1) ErrorLevel (Plain args), s1))"

definition Debug ::
  "Log \<Rightarrow> callstack \<Rightarrow> Context option \<Rightarrow> val list \<Rightarrow> state \<Rightarrow> panic + Record \<times> state" where
  "Debug l cs ctx args s =
     (let (flds, s1) = setCallStackTrace DebugLevel cs Map.empty s
      in case injectContextDataMap ctx s1 flds of
           Inl e \<Rightarrow> Inl e
         | Inr flds1 \<Rightarrow> Inr (Entry_Log (WithFields (entry l) flds1) DebugLevel (Plain args), s1))"

definition Fatal ::
  "Log \<Rightarrow> callstack \<Rightarrow> Context option \<Rightarrow> val list \<Rightarrow> state \<Rightarrow> panic + Record \<times> state" where
  "Fatal l cs ctx args s =
     (let (flds, s1) = setCallStackTrace FatalLevel cs Map.empty s
      in case injectContextDataMap ctx s1 flds of
           Inl e \<Rightarrow> Inl e
         | Inr flds1 \<Rightarrow> Inr (Entry_Log (WithFields (entry l) flds1) FatalLevel (Plain args), s1))"

text \<open>
  \<^verbatim>\<open>InfoMap\<close> (lines 240-252); \<open>dataMap\<close> is \<open>None\<close> for the nil map. Its loop (lines 245-249,
  here \<open>mergeDataMap\<close>) overrides the fields with the entries of the map, as the loop of
  \<^verbatim>\<open>injectContextDataMap\<close> does.
\<close>

definition mergeDataMap :: "Fields option \<Rightarrow> Fields \<Rightarrow> Fields" where
  "mergeDataMap dataMap flds = (case dataMap of None \<Rightarrow> flds | Some m \<Rightarrow> flds ++ m)"

definition InfoMap ::
  "Log \<Rightarrow> callstack \<Rightarrow> Context option \<Rightarrow> Fields option \<Rightarrow> val list \<Rightarrow> state
     \<Rightarrow> panic + Record \<times> state" where
  "InfoMap l cs ctx dataMap args s =
     (let (flds, s1) = setCallStackTrace InfoLevel cs Map.empty s
      in case injectContextDataMap ctx s1 flds of
           Inl e \<Rightarrow> Inl e
         | Inr flds1 \<Rightarrow>
             (let flds2 = mergeDataMap dataMap flds1
              in Inr (Entry_Log (WithFields (entry l) flds2) InfoLevel (Plain args), s1)))"

text \<open>\<^verbatim>\<open>LogRequest\<close> (lines 254-259) and \<^verbatim>\<open>LogResponse\<close> (lines 261-266).\<close>

definition LogRequest ::
  "(string \<Rightarrow> string) \<Rightarrow> Log \<Rightarrow> callstack \<Rightarrow> Context option \<Rightarrow> addr \<Rightarrow> state
     \<Rightarrow> panic + Record \<times> state" where
  "LogRequest quote l cs ctx r s =
     (let (flds, s1) = setCallStackTrace InfoLevel cs Map.empty s
      in case injectContextDataMap ctx s1 flds of
           Inl e \<Rightarrow> Inl e
         | Inr flds1 \<Rightarrow>
             (case injectURLPath r s1 flds1 of
                Inl e \<Rightarrow> Inl e
              | Inr flds2 \<Rightarrow>
                  (case injectRequestBody quote r s1 flds2 of
                     Inl e \<Rightarrow> Inl e
                   | Inr (flds3, s2) \<Rightarrow>
                       Inr (Entry_Log (WithFields (entry l) flds3) InfoLevel
                              (Plain [StringVal ''Request Body'']), s2))))"

definition LogResponse ::
  "Log \<Rightarrow> callstack \<Rightarrow> Context option \<Rightarrow> 'w LoggingResponseWriter option \<Rightarrow> state
     \<Rightarrow> panic + Record \<times> state" where
  "LogResponse l cs ctx rw s =
     (let (flds, s1) = setCallStackTrace InfoLevel cs Map.empty s
      in case injectContextDataMap ctx s1 flds of
           Inl e \<Rightarrow> Inl e
         | Inr flds1 \<Rightarrow>
             (case injectResponseBody rw flds1 of
                Inl e \<Rightarrow> Inl e
              | Inr flds2 \<Rightarrow>
                  Inr (Entry_Log (WithFields (entry l) flds2) InfoLevel
                         (Plain [StringVal ''Response Body'']), s1)))"

text \<open>
  For the statements below: the value of a field in the record that a call emits;
  \<open>None\<close> when the call panics, \<open>Some None\<close> when the record has no such field.
\<close>

definition emitted_field :: "panic + Record \<times> state \<Rightarrow> string \<Rightarrow> val option option" where
  "emitted_field res key =
     (case res of Inl e \<Rightarrow> None | Inr (record, s) \<Rightarrow> Some (rec_fields record key))"

section \<open>Concrete inputs\<close>

text \<open>
  A store with one map (extra data that a caller holds), one request and its body stream,
  before any call of the caller resolver.
\<close>

definition demo_request :: Request where
  "demo_request =
     \<lparr>req_Host = ''example.org'', req_URL_Path = Some ''/orders'', req_Body = Some 0,
      req_ctx = None\<rparr>"

definition demo_state :: state where
  "demo_state =
     \<lparr>maps = [[''tenant'' \<mapsto> ''acme'']], requests = [demo_request],
      readers = [Stream ''id=7'' False], callerInitOnce = False, thisPackageName = [],
      minimumCallerDepth = 1\<rparr>"

text \<open>
  The store after \<^verbatim>\<open>SetContextDataAndSetValue\<close> has bound the caller's map with the id
  \<open>first\<close> in the context of a second request.
\<close>

definition shared_state :: state where
  "shared_state =
     \<lparr>maps = [[''tenant'' \<mapsto> ''acme'', ''context_id'' \<mapsto> ''first'']],
      requests = [demo_request,
        demo_request\<lparr>req_ctx :=
          Some (WithValue Background ContextDataMapKey (StringMap (Some 0)))\<rparr>],
      readers = [Stream ''id=7'' False], callerInitOnce = False, thisPackageName = [],
      minimumCallerDepth = 1\<rparr>"

section \<open>Properties of the package name\<close>

lemma LastIndex_lower: "- 1 \<le> LastIndex f c"
  by (induction f) (auto simp: Let_def)

lemma LastIndex_upper: "LastIndex f c < int (length f)"
  by (induction f) (auto simp: Let_def)

lemma LastIndex_absent: "c \<notin> set f \<Longrightarrow> LastIndex f c = - 1"
  by (induction f) (auto simp: Let_def)

lemma LastIndex_present: "c \<in> set f \<Longrightarrow> 0 \<le> LastIndex f c"
  by (induction f) (auto simp: Let_def)

lemma LastIndex_append:
  "LastIndex (xs @ ys) c =
     (if c \<in> set ys then int (length xs) + LastIndex ys c else LastIndex xs c)"
proof (induction xs)
  case Nil
  then show ?case by (simp add: LastIndex_absent)
next
  case (Cons x xs)
  then show ?case
    using LastIndex_lower [of xs c] LastIndex_present [of c ys] by (auto simp: Let_def)
qed

lemma LastIndex_decomp:
  assumes "0 \<le> LastIndex f c"
  obtains xs ys where "f = xs @ c # ys" and "c \<notin> set ys" and "LastIndex f c = int (length xs)"
proof -
  from assms have "c \<in> set f"
    using LastIndex_absent [of c f] by force
  then obtain xs ys where f: "f = xs @ c # ys" and ys: "c \<notin> set ys"
    by (meson split_list_last)
  have "LastIndex (c # ys) c = 0"
    using ys by (simp add: LastIndex_absent)
  then have "LastIndex f c = int (length xs)"
    unfolding f by (simp add: LastIndex_append del: LastIndex.simps)
  with f ys show thesis by (rule that)
qed

lemma getPackageName_cut:
  "LastIndex f (CHR ''/'') < LastIndex f (CHR ''.'')
     \<Longrightarrow> getPackageName f = getPackageName (take (nat (LastIndex f (CHR ''.''))) f)"
  by (subst getPackageName.simps) (simp add: Let_def)

lemma getPackageName_done:
  "LastIndex f (CHR ''.'') \<le> LastIndex f (CHR ''/'') \<Longrightarrow> getPackageName f = f"
  by (subst getPackageName.simps) (simp add: Let_def)

lemma getPackageName_prefix: "prefix (getPackageName f) f"
proof (induction f rule: getPackageName.induct)
  case (1 f)
  show ?case
  proof (cases "LastIndex f (CHR ''/'') < LastIndex f (CHR ''.'')")
    case True
    then have "prefix (getPackageName (take (nat (LastIndex f (CHR ''.''))) f))
                 (take (nat (LastIndex f (CHR ''.''))) f)"
      using "1.IH" by simp
    moreover have "prefix (take (nat (LastIndex f (CHR ''.''))) f) f"
      by (rule take_is_prefix)
    ultimately have "prefix (getPackageName (take (nat (LastIndex f (CHR ''.''))) f)) f"
      by (rule prefix_order.trans)
    then show ?thesis
      using True by (simp add: getPackageName_cut)
  next
    case False
    then show ?thesis
      by (simp add: getPackageName_done)
  qed
qed

lemma getPackageName_stops:
  "LastIndex (getPackageName f) (CHR ''.'') \<le> LastIndex (getPackageName f) (CHR ''/'')"
proof (induction f rule: getPackageName.induct)
  case (1 f)
  show ?case
  proof (cases "LastIndex f (CHR ''/'') < LastIndex f (CHR ''.'')")
    case True
    then show ?thesis
      using "1.IH" by (simp add: getPackageName_cut)
  next
    case False
    then show ?thesis
      by (simp add: getPackageName_done)
  qed
qed

lemma package_of_cut:
  assumes lt: "LastIndex f (CHR ''/'') < LastIndex f (CHR ''.'')"
  shows "package_of (take (nat (LastIndex f (CHR ''.''))) f) = package_of f"
proof -
  from lt have "0 \<le> LastIndex f (CHR ''.'')"
    using LastIndex_lower [of f "CHR ''/''"] by simp
  then obtain xs ys where f: "f = xs @ CHR ''.'' # ys" and ys: "CHR ''.'' \<notin> set ys"
    and lp: "LastIndex f (CHR ''.'') = int (length xs)"
    by (rule LastIndex_decomp)
  have noslash: "CHR ''/'' \<notin> set (CHR ''.'' # ys)"
  proof
    assume a: "CHR ''/'' \<in> set (CHR ''.'' # ys)"
    then have "LastIndex f (CHR ''/'') = int (length xs) + LastIndex (CHR ''.'' # ys) (CHR ''/'')"
      unfolding f by (simp add: LastIndex_append del: LastIndex.simps)
    with LastIndex_present [OF a] lt lp show False by simp
  qed
  then have ls: "LastIndex f (CHR ''/'') = LastIndex xs (CHR ''/'')"
    unfolding f by (simp add: LastIndex_append del: LastIndex.simps)
  have k: "nat (LastIndex xs (CHR ''/'') + 1) \<le> length xs"
    using LastIndex_upper [of xs "CHR ''/''"] by simp
  have tk: "take (nat (LastIndex f (CHR ''.''))) f = xs"
    unfolding lp by (simp add: f)
  show ?thesis
    unfolding tk unfolding package_of_def ls [symmetric, unfolded f] Let_def
    using k ls f by (simp add: takeWhile_tail)
qed

lemma package_of_done:
  assumes le: "LastIndex f (CHR ''.'') \<le> LastIndex f (CHR ''/'')"
  shows "package_of f = f"
proof (cases "CHR ''.'' \<in> set f")
  case False
  then have "\<forall>c \<in> set (drop (nat (LastIndex f (CHR ''/'') + 1)) f). c \<noteq> CHR ''.''"
    by (metis in_set_dropD)
  then have tw: "takeWhile (\<lambda>c. c \<noteq> CHR ''.'') (drop (nat (LastIndex f (CHR ''/'') + 1)) f)
               = drop (nat (LastIndex f (CHR ''/'') + 1)) f"
    by (rule takeWhile_eq_all_conv [THEN iffD2])
  show ?thesis
    unfolding package_of_def Let_def tw by (rule append_take_drop_id)
next
  case True
  then have "0 \<le> LastIndex f (CHR ''/'')"
    using LastIndex_present [of "CHR ''.''" f] le by simp
  then obtain xs ys where f: "f = xs @ CHR ''/'' # ys" and ys: "CHR ''/'' \<notin> set ys"
    and ls: "LastIndex f (CHR ''/'') = int (length xs)"
    by (rule LastIndex_decomp)
  have nodot: "CHR ''.'' \<notin> set ys"
  proof
    assume a: "CHR ''.'' \<in> set ys"
    then have "LastIndex f (CHR ''.'') = int (length xs) + (LastIndex ys (CHR ''.'') + 1)"
      unfolding f using LastIndex_present [OF a] by (simp add: LastIndex_append Let_def)
    with LastIndex_present [OF a] le ls show False by simp
  qed
  have "nat (LastIndex f (CHR ''/'') + 1) = Suc (length xs)"
    using ls by simp
  then show ?thesis
    using nodot by (auto simp: package_of_def Let_def f)
qed

lemma getPackageName_package_of: "getPackageName f = package_of f"
proof (induction f rule: getPackageName.induct)
  case (1 f)
  show ?case
  proof (cases "LastIndex f (CHR ''/'') < LastIndex f (CHR ''.'')")
    case True
    then have "getPackageName f = getPackageName (take (nat (LastIndex f (CHR ''.''))) f)"
      by (rule getPackageName_cut)
    also have "\<dots> = package_of (take (nat (LastIndex f (CHR ''.''))) f)"
      using "1.IH" True by simp
    also have "\<dots> = package_of f"
      using True by (rule package_of_cut)
    finally show ?thesis .
  next
    case False
    then show ?thesis
      by (simp add: getPackageName_done package_of_done)
  qed
qed

text \<open>
  Claim C10. \<^verbatim>\<open>getPackageName\<close> is a total function: its recursion is accepted with the length
  of the string as measure, and a pass of the loop that does not stop continues with a
  strictly shorter string. The result is a prefix of the input, and the loop stops exactly
  where the last period no longer lies after the last slash: the result is the input cut at
  the first period after its last slash, and the input itself when there is no such period.
\<close>

theorem getPackageName_total_prefix:
  "prefix (getPackageName f) f
   \<and> getPackageName f = package_of f
   \<and> LastIndex (getPackageName f) (CHR ''.'') \<le> LastIndex (getPackageName f) (CHR ''/'')
   \<and> (LastIndex f (CHR ''/'') < LastIndex f (CHR ''.'') \<longrightarrow>
        length (take (nat (LastIndex f (CHR ''.''))) f) < length f
        \<and> getPackageName f = getPackageName (take (nat (LastIndex f (CHR ''.''))) f))
   \<and> (LastIndex f (CHR ''.'') \<le> LastIndex f (CHR ''/'') \<longrightarrow> getPackageName f = f)"
proof -
  have "length (take (nat (LastIndex f (CHR ''.''))) f) < length f"
    if "LastIndex f (CHR ''/'') < LastIndex f (CHR ''.'')"
    using that LastIndex_upper [of f "CHR ''.''"] LastIndex_lower [of f "CHR ''/''"] by simp
  then show ?thesis
    using getPackageName_prefix [of f] getPackageName_package_of [of f]
      getPackageName_stops [of f] getPackageName_cut [of f] getPackageName_done [of f]
    by blast
qed

theorem getPackageName_total_prefix_witness:
  "LastIndex ''github.com/x/log.(*Log).Error'' (CHR ''/'')
     < LastIndex ''github.com/x/log.(*Log).Error'' (CHR ''.'')
   \<and> getPackageName ''github.com/x/log.(*Log).Error'' = getPackageName ''github.com/x/log.(*Log)''
   \<and> prefix (getPackageName ''github.com/x/log.(*Log).Error'') ''github.com/x/log.(*Log).Error''
   \<and> LastIndex ''github.com/x/log'' (CHR ''.'') \<le> LastIndex ''github.com/x/log'' (CHR ''/'')
   \<and> getPackageName ''github.com/x/log'' = ''github.com/x/log''"
proof -
  have lt: "LastIndex ''github.com/x/log.(*Log).Error'' (CHR ''/'')
              < LastIndex ''github.com/x/log.(*Log).Error'' (CHR ''.'')"
    by simp
  have le: "LastIndex ''github.com/x/log'' (CHR ''.'') \<le> LastIndex ''github.com/x/log'' (CHR ''/'')"
    by simp
  have tk: "take (nat (LastIndex ''github.com/x/log.(*Log).Error'' (CHR ''.'')))
              ''github.com/x/log.(*Log).Error'' = ''github.com/x/log.(*Log)''"
    by simp
  show ?thesis
    using getPackageName_total_prefix [of "''github.com/x/log.(*Log).Error''"]
      getPackageName_total_prefix [of "''github.com/x/log''"] lt le
    unfolding tk by blast
qed

section \<open>Properties of the context carrier\<close>

lemma context_ok_Value:
  "context_ok s c \<Longrightarrow> ctx_Value c key = Some (StringMap (Some a)) \<Longrightarrow> a < length (maps s)"
  by (induction s c rule: context_ok.induct) (auto split: if_splits)

lemma injectContextDataMap_ok:
  "context_ok s c \<Longrightarrow> injectContextDataMap (Some c) s flds = Inr (flds ++ context_fields s c)"
  by (auto simp: injectContextDataMap_def context_fields_def context_data_def string_fields_def
      dest: context_ok_Value split: option.splits ctxval.splits)

lemma getContextData_ok:
  "context_ok s c \<Longrightarrow>
     getContextData (Some c) s =
       Inr (case context_data s c of
              None \<Rightarrow> None
            | Some m \<Rightarrow> Some \<lparr>contextId = map_index m ContextIdKey\<rparr>)"
  by (auto simp: getContextData_def context_data_def
      dest: context_ok_Value split: option.splits ctxval.splits)

lemma Build_state:
  "BuildContextDataAndSetValue cid s =
     (WithValue Background ContextDataMapKey (StringMap (Some (length (maps s)))),
      s\<lparr>maps := maps s @ [[ContextIdKey \<mapsto> cid]]\<rparr>)"
  by (simp add: BuildContextDataAndSetValue_def make_map_def map_assign_def)

lemma Append_state:
  "r < length (requests s) \<Longrightarrow>
   AppendContextDataAndSetValue r cid s =
     Inr (length (requests s),
          s\<lparr>maps := maps s @ [[ContextIdKey \<mapsto> cid]],
            requests := requests s @
              [(requests s ! r)\<lparr>req_ctx := Some (WithValue (Request_Context (requests s ! r))
                 ContextDataMapKey (StringMap (Some (length (maps s)))))\<rparr>]\<rparr>)"
  by (simp add: AppendContextDataAndSetValue_def make_map_def map_assign_def
      Request_WithContext_def Let_def)

lemma Set_nil_state:
  "r < length (requests s) \<Longrightarrow>
   SetContextDataAndSetValue r None cid s =
     Inr (length (requests s),
          s\<lparr>maps := maps s @ [[ContextIdKey \<mapsto> cid]],
            requests := requests s @
              [(requests s ! r)\<lparr>req_ctx := Some (WithValue (Request_Context (requests s ! r))
                 ContextDataMapKey (StringMap (Some (length (maps s)))))\<rparr>]\<rparr>)"
  by (simp add: SetContextDataAndSetValue_def make_map_def map_assign_def
      Request_WithContext_def Let_def)

lemma Set_map_state:
  "r < length (requests s) \<Longrightarrow> a < length (maps s) \<Longrightarrow>
   SetContextDataAndSetValue r (Some a) cid s =
     Inr (length (requests s),
          s\<lparr>maps := (maps s)[a := (maps s ! a)(ContextIdKey \<mapsto> cid)],
            requests := requests s @
              [(requests s ! r)\<lparr>req_ctx := Some (WithValue (Request_Context (requests s ! r))
                 ContextDataMapKey (StringMap (Some a)))\<rparr>]\<rparr>)"
  by (simp add: SetContextDataAndSetValue_def make_map_def map_assign_def
      Request_WithContext_def Let_def)

lemma Info_fields:
  "context_ok s c \<Longrightarrow>
   Info l cs (Some c) args s =
     Inr (\<lparr>rec_level = InfoLevel, rec_fields = Data (entry l) ++ context_fields s c,
           rec_message = Plain args\<rparr>, s)"
  by (simp add: Info_def setCallStackTrace_def injectContextDataMap_ok Entry_Log_def WithFields_def)

text \<open>
  Claim C8. For every correlation id, \<^verbatim>\<open>BuildContextDataAndSetValue\<close> returns the background
  context extended by one binding, a new map that holds the entry \<open>context_id\<close> and nothing
  else, and leaves every existing object as it was. \<^verbatim>\<open>getContextData\<close> on that context returns
  the id. \<^verbatim>\<open>Info\<close> on a logger from \<^verbatim>\<open>NewLogger\<close> with that context hands over a record whose
  fields are the service name and \<open>context_id\<close>: there is no \<open>func\<close> and no \<open>file\<close>.
\<close>

theorem BuildContext_scenario:
  "fst (BuildContextDataAndSetValue cid s)
     = WithValue Background ContextDataMapKey (StringMap (Some (length (maps s))))
   \<and> snd (BuildContextDataAndSetValue cid s) = s\<lparr>maps := maps s @ [[ContextIdKey \<mapsto> cid]]\<rparr>
   \<and> context_data (snd (BuildContextDataAndSetValue cid s)) (fst (BuildContextDataAndSetValue cid s))
       = Some [ContextIdKey \<mapsto> cid]
   \<and> getContextData (Some (fst (BuildContextDataAndSetValue cid s)))
         (snd (BuildContextDataAndSetValue cid s))
       = Inr (Some \<lparr>contextId = cid\<rparr>)
   \<and> Info (NewLogger service) cs (Some (fst (BuildContextDataAndSetValue cid s))) args
         (snd (BuildContextDataAndSetValue cid s))
       = Inr (\<lparr>rec_level = InfoLevel,
               rec_fields = [''service'' \<mapsto> StringVal service, ''context_id'' \<mapsto> StringVal cid],
               rec_message = Plain args\<rparr>,
              snd (BuildContextDataAndSetValue cid s))
   \<and> emitted_field (Info (NewLogger service) cs (Some (fst (BuildContextDataAndSetValue cid s)))
         args (snd (BuildContextDataAndSetValue cid s))) ''context_id'' = Some (Some (StringVal cid))
   \<and> emitted_field (Info (NewLogger service) cs (Some (fst (BuildContextDataAndSetValue cid s)))
         args (snd (BuildContextDataAndSetValue cid s))) ''func'' = Some None
   \<and> emitted_field (Info (NewLogger service) cs (Some (fst (BuildContextDataAndSetValue cid s)))
         args (snd (BuildContextDataAndSetValue cid s))) ''file'' = Some None"
proof -
  let ?c = "WithValue Background ContextDataMapKey (StringMap (Some (length (maps s))))"
  let ?s = "s\<lparr>maps := maps s @ [[ContextIdKey \<mapsto> cid]]\<rparr>"
  have ok: "context_ok ?s ?c" by simp
  have data: "context_data ?s ?c = Some [ContextIdKey \<mapsto> cid]"
    by (simp add: context_data_def)
  have flds: "Data (entry (NewLogger service)) ++ context_fields ?s ?c
                = [''service'' \<mapsto> StringVal service, ''context_id'' \<mapsto> StringVal cid]"
    unfolding context_fields_def data
    by (rule ext) (simp add: NewLogger_def WithFields_def ContextIdKey_def map_add_def)
  have info: "Info (NewLogger service) cs (Some ?c) args ?s
                = Inr (\<lparr>rec_level = InfoLevel,
                        rec_fields = [''service'' \<mapsto> StringVal service,
                                      ''context_id'' \<mapsto> StringVal cid],
                        rec_message = Plain args\<rparr>, ?s)"
    using Info_fields [OF ok] flds by simp
  have get: "getContextData (Some ?c) ?s = Inr (Some \<lparr>contextId = cid\<rparr>)"
    using getContextData_ok [OF ok] data by (simp add: map_index_def)
  show ?thesis
    unfolding Build_state fst_conv snd_conv info
    using data get by (simp add: emitted_field_def)
qed

theorem BuildContext_scenario_witness:
  "getContextData (Some (fst (BuildContextDataAndSetValue ''req-42'' initial_state)))
     (snd (BuildContextDataAndSetValue ''req-42'' initial_state))
     = Inr (Some \<lparr>contextId = ''req-42''\<rparr>)
   \<and> emitted_field (Info (NewLogger ''orders'') \<lparr>once_stack = [], walk_stack = []\<rparr>
         (Some (fst (BuildContextDataAndSetValue ''req-42'' initial_state))) []
         (snd (BuildContextDataAndSetValue ''req-42'' initial_state))) ''context_id''
       = Some (Some (StringVal ''req-42''))
   \<and> emitted_field (Info (NewLogger ''orders'') \<lparr>once_stack = [], walk_stack = []\<rparr>
         (Some (fst (BuildContextDataAndSetValue ''req-42'' initial_state))) []
         (snd (BuildContextDataAndSetValue ''req-42'' initial_state))) ''func''
       = Some None"
  using BuildContext_scenario [of "''req-42''" initial_state "''orders''"
      "\<lparr>once_stack = [], walk_stack = []\<rparr>" "[]"]
  by blast

text \<open>
  Claim C9. For a request of the store and every correlation id, \<^verbatim>\<open>SetContextDataAndSetValue\<close>
  does not panic, whether the extra data are nil or a map of the store. The data map bound
  in the context of the request it returns is the extra data (the empty map for nil) with
  \<open>context_id\<close> set to the given id, also when the extra data had a \<open>context_id\<close> entry; so
  \<^verbatim>\<open>getContextData\<close> on that context returns the given id.
\<close>

theorem SetContextData_correlation_id_wins:
  assumes r: "r < length (requests s)"
    and d: "case data of None \<Rightarrow> True | Some a \<Rightarrow> a < length (maps s)"
  shows "case SetContextDataAndSetValue r data cid s of
           Inl e \<Rightarrow> False
         | Inr (r', s') \<Rightarrow>
             r' < length (requests s')
             \<and> context_data s' (Request_Context (requests s' ! r'))
                 = Some ((case data of None \<Rightarrow> Map.empty | Some a \<Rightarrow> maps s ! a)
                          (ContextIdKey \<mapsto> cid))
             \<and> getContextData (Some (Request_Context (requests s' ! r'))) s'
                 = Inr (Some \<lparr>contextId = cid\<rparr>)"
proof (cases data)
  case None
  show ?thesis
    unfolding None Set_nil_state [OF r]
    by (simp add: context_data_def getContextData_def Request_Context_def map_index_def)
next
  case (Some a)
  with d have a: "a < length (maps s)" by simp
  show ?thesis
    unfolding Some Set_map_state [OF r a]
    using a by (simp add: context_data_def getContextData_def Request_Context_def map_index_def)
qed

theorem SetContextData_correlation_id_wins_witness:
  "(case SetContextDataAndSetValue 0 None ''req-42'' demo_state of
      Inl e \<Rightarrow> False
    | Inr (r', s') \<Rightarrow>
        context_data s' (Request_Context (requests s' ! r')) = Some [''context_id'' \<mapsto> ''req-42''])
   \<and> (case SetContextDataAndSetValue 0 (Some 0) ''req-42''
             (demo_state\<lparr>maps := [[''context_id'' \<mapsto> ''stale'', ''tenant'' \<mapsto> ''acme'']]\<rparr>) of
      Inl e \<Rightarrow> False
    | Inr (r', s') \<Rightarrow>
        context_data s' (Request_Context (requests s' ! r'))
          = Some [''context_id'' \<mapsto> ''req-42'', ''tenant'' \<mapsto> ''acme'']
        \<and> getContextData (Some (Request_Context (requests s' ! r'))) s'
          = Inr (Some \<lparr>contextId = ''req-42''\<rparr>))"
proof -
  have r1: "0 < length (requests demo_state)"
    by (simp add: demo_state_def)
  have r2: "0 < length (requests
              (demo_state\<lparr>maps := [[''context_id'' \<mapsto> ''stale'', ''tenant'' \<mapsto> ''acme'']]\<rparr>))"
    by (simp add: demo_state_def)
  have d1: "case None :: addr option of None \<Rightarrow> True | Some a \<Rightarrow> a < length (maps demo_state)"
    by simp
  have d2: "case Some 0 of None \<Rightarrow> True
            | Some a \<Rightarrow> a < length (maps
                (demo_state\<lparr>maps := [[''context_id'' \<mapsto> ''stale'', ''tenant'' \<mapsto> ''acme'']]\<rparr>))"
    by simp
  have m: "[''context_id'' \<mapsto> ''stale'', ''tenant'' \<mapsto> ''acme''](''context_id'' \<mapsto> ''req-42'')
             = [''context_id'' \<mapsto> ''req-42'', ''tenant'' \<mapsto> ''acme'']"
    by (rule ext) simp
  show ?thesis
    using SetContextData_correlation_id_wins [OF r1 d1, of "''req-42''"]
      SetContextData_correlation_id_wins [OF r2 d2, of "''req-42''"]
    by (auto simp: ContextIdKey_def m split: sum.splits)
qed

lemma context_data_maps_append:
  "context_ok s c \<Longrightarrow> maps s' = maps s @ ms \<Longrightarrow> context_data s' c = context_data s c"
  by (auto simp: context_data_def nth_append dest: context_ok_Value
      split: option.splits ctxval.splits)

lemma context_data_maps_update:
  "maps s' = (maps s)[a := m] \<Longrightarrow>
   context_data s' c =
     (if ctx_Value c ContextDataMapKey = Some (StringMap (Some a)) \<and> a < length (maps s)
      then Some m else context_data s c)"
  by (auto simp: context_data_def nth_list_update split: option.splits ctxval.splits)

text \<open>
  Claim C5 fails as stated: with a map of the store as extra data, the call writes into that
  map. Here the caller's map has no \<open>context_id\<close> entry before the call and has one after.
\<close>

theorem SetContextData_counterexample_C5:
  "(maps demo_state ! 0) ''context_id'' = None
   \<and> (case SetContextDataAndSetValue 0 (Some 0) ''req-42'' demo_state of
        Inl e \<Rightarrow> False
      | Inr (r', s') \<Rightarrow>
          (maps s' ! 0) ''context_id'' = Some ''req-42'' \<and> maps s' ! 0 \<noteq> maps demo_state ! 0)"
proof -
  have "[''tenant'' \<mapsto> ''acme'', ''context_id'' \<mapsto> ''req-42''] ''context_id''
          \<noteq> [''tenant'' \<mapsto> ''acme''] ''context_id''"
    by simp
  then have "[''tenant'' \<mapsto> ''acme'', ''context_id'' \<mapsto> ''req-42''] \<noteq> [''tenant'' \<mapsto> ''acme'']"
    by metis
  then show ?thesis
    by (simp add: Set_map_state demo_state_def ContextIdKey_def)
qed

text \<open>
  Claim C5, amended. \<^verbatim>\<open>SetContextDataAndSetValue\<close> makes a new map only when the extra data are
  nil; the existing maps are then unchanged. For a map \<open>m\<close> of the store as extra data it
  makes no map: it sets \<open>context_id\<close> in \<open>m\<close> itself and binds \<open>m\<close> in the context of the request it
  returns. Every other entry of \<open>m\<close> and every other map stay as they were, so \<open>m\<close> is unchanged
  exactly when it already held the given id under \<open>context_id\<close>.
\<close>

theorem SetContextData_writes_callers_map:
  assumes r: "r < length (requests s)"
    and d: "case data of None \<Rightarrow> True | Some a \<Rightarrow> a < length (maps s)"
  shows "case SetContextDataAndSetValue r data cid s of
           Inl e \<Rightarrow> False
         | Inr (r', s') \<Rightarrow>
             (case data of
                None \<Rightarrow>
                  maps s' = maps s @ [[ContextIdKey \<mapsto> cid]]
                  \<and> ctx_Value (Request_Context (requests s' ! r')) ContextDataMapKey
                      = Some (StringMap (Some (length (maps s))))
              | Some a \<Rightarrow>
                  maps s' = (maps s)[a := (maps s ! a)(ContextIdKey \<mapsto> cid)]
                  \<and> ctx_Value (Request_Context (requests s' ! r')) ContextDataMapKey
                      = Some (StringMap (Some a))
                  \<and> (maps s' ! a = maps s ! a) = ((maps s ! a) ContextIdKey = Some cid))"
proof (cases data)
  case None
  show ?thesis
    unfolding None Set_nil_state [OF r] by (simp add: Request_Context_def)
next
  case (Some a)
  with d have a: "a < length (maps s)" by simp
  have "((maps s ! a)(ContextIdKey \<mapsto> cid) = maps s ! a) = ((maps s ! a) ContextIdKey = Some cid)"
    by (metis fun_upd_same fun_upd_triv)
  then show ?thesis
    unfolding Some Set_map_state [OF r a] using a by (simp add: Request_Context_def)
qed

theorem SetContextData_writes_callers_map_witness:
  "(case SetContextDataAndSetValue 0 (Some 0) ''req-42'' demo_state of
      Inl e \<Rightarrow> False
    | Inr (r', s') \<Rightarrow> maps s' = [[''tenant'' \<mapsto> ''acme'', ''context_id'' \<mapsto> ''req-42'']])
   \<and> (case SetContextDataAndSetValue 0 None ''req-42'' demo_state of
      Inl e \<Rightarrow> False
    | Inr (r', s') \<Rightarrow> maps s' = [[''tenant'' \<mapsto> ''acme''], [''context_id'' \<mapsto> ''req-42'']])"
proof -
  have r: "0 < length (requests demo_state)"
    by (simp add: demo_state_def)
  have d1: "case Some 0 of None \<Rightarrow> True | Some a \<Rightarrow> a < length (maps demo_state)"
    by (simp add: demo_state_def)
  have d2: "case None :: addr option of None \<Rightarrow> True | Some a \<Rightarrow> a < length (maps demo_state)"
    by simp
  show ?thesis
    using SetContextData_writes_callers_map [OF r d1, of "''req-42''"]
      SetContextData_writes_callers_map [OF r d2, of "''req-42''"]
    by (auto simp: ContextIdKey_def demo_state_def split: sum.splits)
qed

text \<open>
  Claim C4 fails as stated for \<^verbatim>\<open>SetContextDataAndSetValue\<close>: a first call binds the caller's
  map in the context of the request it returns; a second call on that request with the same
  map writes the new id into the map, and the data read through the context of the first
  request show the new id.
\<close>

theorem derived_request_counterexample_C4:
  "(case SetContextDataAndSetValue 0 (Some 0) ''first'' demo_state of
      Inl e \<Rightarrow> False
    | Inr (r1, s1) \<Rightarrow>
        getContextData (Some (Request_Context (requests s1 ! r1))) s1
          = Inr (Some \<lparr>contextId = ''first''\<rparr>)
        \<and> (case SetContextDataAndSetValue r1 (Some 0) ''second'' s1 of
             Inl e \<Rightarrow> False
           | Inr (r2, s2) \<Rightarrow>
               r2 \<noteq> r1
               \<and> getContextData (Some (Request_Context (requests s2 ! r1))) s2
                   = Inr (Some \<lparr>contextId = ''second''\<rparr>)))"
  by (simp add: Set_map_state demo_state_def getContextData_def Request_Context_def
      demo_request_def map_index_def ContextIdKey_def)

text \<open>
  Claim C4, amended. For a request \<open>r\<close> of the store, \<^verbatim>\<open>AppendContextDataAndSetValue\<close> and
  \<^verbatim>\<open>SetContextDataAndSetValue\<close> return a new request and leave every existing request object,
  \<open>r\<close> and its context binding among them, as it was. After \<^verbatim>\<open>AppendContextDataAndSetValue\<close>
  the data map read through the context of \<open>r\<close> is what it was before. After
  \<^verbatim>\<open>SetContextDataAndSetValue\<close> it is what it was before unless the extra data are the map
  object that the context of \<open>r\<close> binds; then it is that map with \<open>context_id\<close> set to the
  given id.
\<close>

theorem derived_request_leaves_original:
  assumes r: "r < length (requests s)"
    and ok: "context_ok s (Request_Context (requests s ! r))"
    and d: "case data of None \<Rightarrow> True | Some a \<Rightarrow> a < length (maps s)"
  shows "(case AppendContextDataAndSetValue r cid s of
            Inl e \<Rightarrow> False
          | Inr (r', s') \<Rightarrow>
              r' = length (requests s)
              \<and> take (length (requests s)) (requests s') = requests s
              \<and> requests s' ! r = requests s ! r
              \<and> context_data s' (Request_Context (requests s' ! r))
                  = context_data s (Request_Context (requests s ! r)))
       \<and> (case SetContextDataAndSetValue r data cid s of
            Inl e \<Rightarrow> False
          | Inr (r', s') \<Rightarrow>
              r' = length (requests s)
              \<and> take (length (requests s)) (requests s') = requests s
              \<and> requests s' ! r = requests s ! r
              \<and> context_data s' (Request_Context (requests s' ! r))
                  = (if shares_map (requests s ! r) data
                     then Some ((case data of None \<Rightarrow> Map.empty | Some a \<Rightarrow> maps s ! a)
                                 (ContextIdKey \<mapsto> cid))
                     else context_data s (Request_Context (requests s ! r))))"
proof -
  let ?c = "Request_Context (requests s ! r)"
  have app: "context_data (s\<lparr>maps := maps s @ [[ContextIdKey \<mapsto> cid]], requests := rs\<rparr>) ?c
               = context_data s ?c" for rs
    by (rule context_data_maps_append [OF ok]) simp
  have A: "case AppendContextDataAndSetValue r cid s of
            Inl e \<Rightarrow> False
          | Inr (r', s') \<Rightarrow>
              r' = length (requests s)
              \<and> take (length (requests s)) (requests s') = requests s
              \<and> requests s' ! r = requests s ! r
              \<and> context_data s' (Request_Context (requests s' ! r)) = context_data s ?c"
    unfolding Append_state [OF r] using r app by (simp add: nth_append)
  have S: "case SetContextDataAndSetValue r data cid s of
            Inl e \<Rightarrow> False
          | Inr (r', s') \<Rightarrow>
              r' = length (requests s)
              \<and> take (length (requests s)) (requests s') = requests s
              \<and> requests s' ! r = requests s ! r
              \<and> context_data s' (Request_Context (requests s' ! r))
                  = (if shares_map (requests s ! r) data
                     then Some ((case data of None \<Rightarrow> Map.empty | Some a \<Rightarrow> maps s ! a)
                                 (ContextIdKey \<mapsto> cid))
                     else context_data s ?c)"
  proof (cases data)
    case None
    show ?thesis
      unfolding None Set_nil_state [OF r] using r app by (simp add: nth_append shares_map_def)
  next
    case (Some a)
    with d have a: "a < length (maps s)" by simp
    have upd: "context_data
                 (s\<lparr>maps := (maps s)[a := (maps s ! a)(ContextIdKey \<mapsto> cid)], requests := rs\<rparr>) ?c
               = (if ctx_Value ?c ContextDataMapKey = Some (StringMap (Some a))
                  then Some ((maps s ! a)(ContextIdKey \<mapsto> cid)) else context_data s ?c)" for rs
      using context_data_maps_update
        [of "s\<lparr>maps := (maps s)[a := (maps s ! a)(ContextIdKey \<mapsto> cid)], requests := rs\<rparr>"
          s a "(maps s ! a)(ContextIdKey \<mapsto> cid)" ?c] a
      by simp
    show ?thesis
      unfolding Some Set_map_state [OF r a] using r upd by (simp add: nth_append shares_map_def)
  qed
  from A S show ?thesis by (rule conjI)
qed

theorem derived_request_leaves_original_witness:
  "(case AppendContextDataAndSetValue 1 ''second'' shared_state of
      Inl e \<Rightarrow> False
    | Inr (r', s') \<Rightarrow>
        r' = 2 \<and> requests s' ! 1 = requests shared_state ! 1
        \<and> context_data s' (Request_Context (requests s' ! 1))
            = Some [''tenant'' \<mapsto> ''acme'', ''context_id'' \<mapsto> ''first''])
   \<and> (case SetContextDataAndSetValue 1 None ''second'' shared_state of
      Inl e \<Rightarrow> False
    | Inr (r', s') \<Rightarrow>
        r' = 2 \<and> requests s' ! 1 = requests shared_state ! 1
        \<and> context_data s' (Request_Context (requests s' ! 1))
            = Some [''tenant'' \<mapsto> ''acme'', ''context_id'' \<mapsto> ''first''])
   \<and> (case SetContextDataAndSetValue 0 (Some 0) ''second'' shared_state of
      Inl e \<Rightarrow> False
    | Inr (r', s') \<Rightarrow>
        r' = 2 \<and> requests s' ! 0 = requests shared_state ! 0
        \<and> context_data s' (Request_Context (requests s' ! 0)) = None)"
proof -
  have r0: "0 < length (requests shared_state)" and r1: "1 < length (requests shared_state)"
    by (simp_all add: shared_state_def)
  have ok0: "context_ok shared_state (Request_Context (requests shared_state ! 0))"
    by (simp add: shared_state_def demo_request_def Request_Context_def)
  have ok1: "context_ok shared_state (Request_Context (requests shared_state ! 1))"
    by (simp add: shared_state_def demo_request_def Request_Context_def)
  have dn: "case None :: addr option of None \<Rightarrow> True | Some a \<Rightarrow> a < length (maps shared_state)"
    by simp
  have ds: "case Some 0 of None \<Rightarrow> True | Some a \<Rightarrow> a < length (maps shared_state)"
    by (simp add: shared_state_def)
  have cd1: "context_data shared_state (Request_Context (requests shared_state ! 1))
               = Some [''tenant'' \<mapsto> ''acme'', ''context_id'' \<mapsto> ''first'']"
    by (simp add: shared_state_def demo_request_def Request_Context_def context_data_def)
  have cd0: "context_data shared_state (Request_Context (requests shared_state ! 0)) = None"
    by (simp add: shared_state_def demo_request_def Request_Context_def context_data_def)
  have sh1: "\<not> shares_map (requests shared_state ! 1) None"
    by (simp add: shares_map_def)
  have sh0: "\<not> shares_map (requests shared_state ! 0) (Some 0)"
    by (simp add: shares_map_def shared_state_def demo_request_def Request_Context_def)
  have len: "length (requests shared_state) = 2"
    by (simp add: shared_state_def)
  show ?thesis
    using derived_request_leaves_original [OF r1 ok1 dn, of "''second''"]
      derived_request_leaves_original [OF r0 ok0 ds, of "''second''"]
    unfolding cd1 cd0 len using sh1 sh0
    by (auto split: sum.splits)
qed

section \<open>Properties of the response capture wrapper\<close>

lemma wrapper_run_sink:
  "fst (wrapper_run impl ops w) = fst (sink_run impl ops (ResponseWriter w))
   \<and> ResponseWriter (snd (wrapper_run impl ops w)) = snd (sink_run impl ops (ResponseWriter w))"
proof (induction ops arbitrary: w)
  case Nil
  show ?case by simp
next
  case (Cons op ops)
  show ?case
  proof (cases op)
    case (DoWriteHeader code)
    then show ?thesis
      using Cons.IH [of "WriteHeader impl code w"] by (simp add: WriteHeader_def)
  next
    case (DoWrite body)
    obtain res rw where rw: "rw_Write impl body (ResponseWriter w) = (res, rw)"
      by (cases "rw_Write impl body (ResponseWriter w)")
    then have W: "Write impl body w = (res, w\<lparr>Body := body, ResponseWriter := rw\<rparr>)"
      by (simp add: Write_def)
    show ?thesis
      using Cons.IH [of "w\<lparr>Body := body, ResponseWriter := rw\<rparr>"] DoWrite rw W
      by (simp add: split_beta)
  qed
qed

lemma wrapper_run_bodies:
  "Status (snd (wrapper_run impl (map DoWrite bodies) w)) = Status w
   \<and> Body (snd (wrapper_run impl (map DoWrite bodies) w)) = last (Body w # bodies)"
proof (induction bodies arbitrary: w)
  case Nil
  show ?case by simp
next
  case (Cons body bodies)
  obtain res rw where rw: "rw_Write impl body (ResponseWriter w) = (res, rw)"
    by (cases "rw_Write impl body (ResponseWriter w)")
  then have W: "Write impl body w = (res, w\<lparr>Body := body, ResponseWriter := rw\<rparr>)"
    by (simp add: Write_def)
  show ?case
    using Cons.IH [of "w\<lparr>Body := body, ResponseWriter := rw\<rparr>"] W
    by (simp add: split_beta)
qed

text \<open>
  Claim C3, amended. For every wrapped sink and every sequence of writes, the sink receives
  through the wrapper exactly the calls it would receive directly, in the same order with
  the same arguments, and every \<^verbatim>\<open>Write\<close> returns what the sink returns. After one status write
  followed by body writes on a new wrapper, the recorded \<open>Status\<close> is the written status, and
  the recorded \<open>Body\<close> is the bytes of the last body write; it is empty when there was none.
\<close>

theorem wrapper_forwards_and_records_last:
  "fst (wrapper_run impl ops w) = fst (sink_run impl ops (ResponseWriter w))
   \<and> ResponseWriter (snd (wrapper_run impl ops w)) = snd (sink_run impl ops (ResponseWriter w))
   \<and> fst (wrapper_run impl (DoWriteHeader code # map DoWrite bodies) (CreateResponseWrapper rw))
       = fst (sink_run impl (DoWriteHeader code # map DoWrite bodies) rw)
   \<and> snd (wrapper_run impl (DoWriteHeader code # map DoWrite bodies) (CreateResponseWrapper rw))
       = \<lparr>Status = code, Body = last ([] # bodies),
          ResponseWriter = snd (sink_run impl (DoWriteHeader code # map DoWrite bodies) rw)\<rparr>"
proof -
  let ?ops = "DoWriteHeader code # map DoWrite bodies"
  let ?w = "CreateResponseWrapper rw"
  have fwd: "fst (wrapper_run impl ops w) = fst (sink_run impl ops (ResponseWriter w))
     \<and> ResponseWriter (snd (wrapper_run impl ops w)) = snd (sink_run impl ops (ResponseWriter w))"
    for ops and w :: "'a LoggingResponseWriter"
    by (rule wrapper_run_sink)
  have rwi: "ResponseWriter ?w = rw"
    by (simp add: CreateResponseWrapper_def)
  have st: "Status (snd (wrapper_run impl ?ops ?w)) = code"
    using wrapper_run_bodies [of impl bodies "WriteHeader impl code ?w"]
    by (simp add: WriteHeader_def)
  have bd: "Body (snd (wrapper_run impl ?ops ?w)) = last ([] # bodies)"
    using wrapper_run_bodies [of impl bodies "WriteHeader impl code ?w"]
    by (simp add: WriteHeader_def CreateResponseWrapper_def)
  have sk: "ResponseWriter (snd (wrapper_run impl ?ops ?w)) = snd (sink_run impl ?ops rw)"
    using fwd [of ?ops ?w] unfolding rwi by blast
  have "snd (wrapper_run impl ?ops ?w)
          = \<lparr>Status = code, Body = last ([] # bodies),
             ResponseWriter = snd (sink_run impl ?ops rw)\<rparr>"
    using st bd sk by (cases "snd (wrapper_run impl ?ops ?w)") simp
  moreover have "fst (wrapper_run impl ?ops ?w) = fst (sink_run impl ?ops rw)"
    using fwd [of ?ops ?w] unfolding rwi by blast
  ultimately show ?thesis
    using fwd [of ops w] by blast
qed

text \<open>
  Claim C3 fails as stated: \<^verbatim>\<open>Write\<close> assigns the field \<open>Body\<close> and does not append to it. After the
  body writes \<open>ab\<close> and \<open>cd\<close> the sink holds \<open>abcd\<close> and the wrapper records \<open>cd\<close>.
\<close>

theorem wrapper_counterexample_C3:
  "snd (wrapper_run recorder_methods [DoWriteHeader 201, DoWrite ''ab'', DoWrite ''cd'']
          (CreateResponseWrapper \<lparr>sent_status = None, sent_bytes = []\<rparr>))
     = \<lparr>Status = 201, Body = ''cd'',
        ResponseWriter = \<lparr>sent_status = Some 201, sent_bytes = ''abcd''\<rparr>\<rparr>
   \<and> Body (snd (wrapper_run recorder_methods [DoWriteHeader 201, DoWrite ''ab'', DoWrite ''cd'']
          (CreateResponseWrapper \<lparr>sent_status = None, sent_bytes = []\<rparr>)))
     \<noteq> ''ab'' @ ''cd''"
  by (simp add: CreateResponseWrapper_def WriteHeader_def Write_def recorder_methods_def)

theorem wrapper_forwards_and_records_last_witness:
  "snd (wrapper_run recorder_methods (DoWriteHeader 404 # map DoWrite [''not '', ''found''])
          (CreateResponseWrapper \<lparr>sent_status = None, sent_bytes = []\<rparr>))
     = \<lparr>Status = 404, Body = ''found'',
        ResponseWriter = \<lparr>sent_status = Some 404, sent_bytes = ''not found''\<rparr>\<rparr>"
proof -
  have "snd (sink_run recorder_methods (DoWriteHeader 404 # map DoWrite [''not '', ''found''])
              \<lparr>sent_status = None, sent_bytes = []\<rparr>)
          = \<lparr>sent_status = Some 404, sent_bytes = ''not found''\<rparr>"
    by (simp add: recorder_methods_def)
  then show ?thesis
    using wrapper_forwards_and_records_last [of recorder_methods "[]"
        "CreateResponseWrapper \<lparr>sent_status = None, sent_bytes = []\<rparr>" 404 "[''not '', ''found'']"
        "\<lparr>sent_status = None, sent_bytes = []\<rparr>"]
    by simp
qed

section \<open>Properties of request logging\<close>

lemma injectRequestBody_ok:
  assumes r: "r < length (requests s)"
    and body: "req_Body (requests s ! r) = Some b"
    and b: "b < length (readers s)"
    and rd: "ReadAll (readers s ! b) = ((B, err), rest)"
  shows "injectRequestBody quote r s flds =
           Inr (flds(RequestKey \<mapsto> StringVal (Sprintf_q quote B)),
                s\<lparr>readers := (readers s)[b := Close rest] @ [NopCloserBuffer B],
                  requests := (requests s)[r := (requests s ! r)\<lparr>req_Body :=
                    Some (length (readers s))\<rparr>]\<rparr>)"
  using r body b rd by (simp add: injectRequestBody_def)

text \<open>
  Claim C7. Take a request of the store with a URL and a body stream from which
  \<^verbatim>\<open>ioutil.ReadAll\<close> gets the bytes \<open>B\<close> (with or without a read error), and a context whose
  references are valid. Then \<^verbatim>\<open>LogRequest\<close> does not panic; the record it hands over has under
  \<open>request\<close> the text \<^verbatim>\<open>fmt\<close> prints for the new body, the quoted \<open>B\<close> in braces; the old stream is
  read out and closed; and the request object now refers to a new buffer from which
  \<^verbatim>\<open>ioutil.ReadAll\<close> gets exactly \<open>B\<close> and no error.
\<close>

theorem LogRequest_restores_body:
  assumes r: "r < length (requests s)"
    and url: "req_URL_Path (requests s ! r) = Some path"
    and body: "req_Body (requests s ! r) = Some b"
    and b: "b < length (readers s)"
    and ok: "context_ok s c"
    and rd: "fst (ReadAll (readers s ! b)) = (B, err)"
  shows "case LogRequest quote l cs (Some c) r s of
           Inl e \<Rightarrow> False
         | Inr (rcd, s') \<Rightarrow>
             rec_level rcd = InfoLevel
             \<and> rec_fields rcd RequestKey = Some (StringVal (''{'' @ quote B @ ''}''))
             \<and> requests s' ! r = (requests s ! r)\<lparr>req_Body := Some (length (readers s))\<rparr>
             \<and> length (readers s) < length (readers s')
             \<and> readers s' ! length (readers s) = NopCloserBuffer B
             \<and> fst (ReadAll (readers s' ! length (readers s))) = (B, False)
             \<and> readers s' ! b = Close (snd (ReadAll (readers s ! b)))"
proof -
  obtain rest where ra: "ReadAll (readers s ! b) = ((B, err), rest)"
    using rd by (cases "ReadAll (readers s ! b)") simp
  have url': "injectURLPath r s flds
                = Inr (flds(PathKey \<mapsto> StringVal (req_Host (requests s ! r) @ path)))" for flds
    using r url by (simp add: injectURLPath_def)
  show ?thesis
    unfolding LogRequest_def
    using r b ra
    by (simp add: setCallStackTrace_def injectContextDataMap_ok [OF ok] url'
        injectRequestBody_ok [OF r body b ra] Entry_Log_def WithFields_def Sprintf_q_def
        nth_append RequestKey_def)
qed

theorem LogRequest_restores_body_witness:
  "(case LogRequest (\<lambda>b. ''<'' @ b @ ''>'') (NewLogger ''orders'')
          \<lparr>once_stack = [], walk_stack = []\<rparr> (Some Background) 0 demo_state of
      Inl e \<Rightarrow> False
    | Inr (rcd, s') \<Rightarrow>
        rec_fields rcd ''request'' = Some (StringVal ''{<id=7>}'')
        \<and> req_Body (requests s' ! 0) = Some 1
        \<and> fst (ReadAll (readers s' ! 1)) = (''id=7'', False))"
proof -
  have r: "0 < length (requests demo_state)"
    by (simp add: demo_state_def)
  have url: "req_URL_Path (requests demo_state ! 0) = Some ''/orders''"
    by (simp add: demo_state_def demo_request_def)
  have body: "req_Body (requests demo_state ! 0) = Some 0"
    by (simp add: demo_state_def demo_request_def)
  have b: "0 < length (readers demo_state)"
    by (simp add: demo_state_def)
  have ok: "context_ok demo_state Background"
    by simp
  have rd: "fst (ReadAll (readers demo_state ! 0)) = (''id=7'', False)"
    by (simp add: demo_state_def)
  have len: "length (readers demo_state) = 1"
    by (simp add: demo_state_def)
  show ?thesis
    using LogRequest_restores_body [OF r url body b ok rd, of "\<lambda>b. ''<'' @ b @ ''>''"
        "NewLogger ''orders''" "\<lparr>once_stack = [], walk_stack = []\<rparr>"]
    unfolding len
    by (auto simp: RequestKey_def demo_state_def demo_request_def split: sum.splits)
qed

end
